theory Spec2Isabelle
  imports Main "HOL-Library.AList"
begin

section \<open>Document tree\<close>

text \<open>
  \<^verbatim>\<open>lib/main/build-site.js\<close> rewrites the document that the markdown renderer
  returns as a Cheerio object. A node of that document is an element (tag name,
  attributes, child nodes) or a text leaf; the document itself is the list of
  the root's child nodes. Attributes are kept in insertion order, one entry per
  name, as the \<^verbatim>\<open>attribs\<close> object of a DOM element does.
\<close>

type_synonym attribs = "(string \<times> string) list"

datatype node =
    Element string attribs "node list"
  | Text string

type_synonym document = "node list"

datatype error = TypeError

fun tagName :: "node \<Rightarrow> string option" where
  "tagName (Element n as cs) = Some n"
| "tagName (Text t) = None"

fun childNodes :: "node \<Rightarrow> node list" where
  "childNodes (Element n as cs) = cs"
| "childNodes (Text t) = []"

fun isElement :: "node \<Rightarrow> bool" where
  "isElement (Element n as cs) = True"
| "isElement (Text t) = False"

definition isTag :: "string \<Rightarrow> node \<Rightarrow> bool" where
  "isTag nm x = (tagName x = Some nm)"

fun attr :: "string \<Rightarrow> node \<Rightarrow> string option" where
  "attr k (Element n as cs) = map_of as k"
| "attr k (Text t) = None"

text \<open>\<^verbatim>\<open>.attr(name, value)\<close> and \<^verbatim>\<open>.attr(name, null)\<close> on the attribute list.\<close>

definition setAttr :: "string \<Rightarrow> string \<Rightarrow> attribs \<Rightarrow> attribs" where
  "setAttr k v as = AList.update k v as"

definition removeAttr :: "string \<Rightarrow> attribs \<Rightarrow> attribs" where
  "removeAttr k as = AList.delete k as"

text \<open>Applying one attribute rewrite to every element of a subtree.\<close>

fun mapAttribs :: "(attribs \<Rightarrow> attribs) \<Rightarrow> node \<Rightarrow> node" where
  "mapAttribs f (Element n as cs) = Element n (f as) (map (mapAttribs f) cs)"
| "mapAttribs f (Text t) = Text t"

text \<open>The proper descendants of a node, in document order.\<close>

fun descendants :: "node \<Rightarrow> node list" where
  "descendants (Element n as cs) = concat (map (\<lambda>c. c # descendants c) cs)"
| "descendants (Text t) = []"

definition nodesOf :: "document \<Rightarrow> node list" where
  "nodesOf doc = concat (map (\<lambda>c. c # descendants c) doc)"

subsection \<open>Strings\<close>

text \<open>White space, as far as ASCII goes.\<close>

definition isSpace :: "char \<Rightarrow> bool" where
  "isSpace c = (c \<in> set [CHR '' '', CHR 0x09, CHR 0x0A, CHR 0x0B, CHR 0x0C, CHR 0x0D])"

text \<open>
  \<^verbatim>\<open>s.split(sep)\<close> for a one-character separator: the pieces between the
  separators, empty pieces included; the empty string gives one empty piece.
\<close>

fun splitWith :: "(char \<Rightarrow> bool) \<Rightarrow> string \<Rightarrow> string list" where
  "splitWith p [] = [[]]"
| "splitWith p (c # cs) =
     (if p c then [] # splitWith p cs
      else (case splitWith p cs of
              [] \<Rightarrow> [[c]]
            | w # ws \<Rightarrow> (c # w) # ws))"

definition split :: "char \<Rightarrow> string \<Rightarrow> string list" where
  "split sep s = splitWith (\<lambda>c. c = sep) s"

fun join :: "string \<Rightarrow> string list \<Rightarrow> string" where
  "join sep [] = []"
| "join sep [x] = x"
| "join sep (x # y # ys) = x @ sep @ join sep (y # ys)"

definition trim :: "string \<Rightarrow> string" where
  "trim s = rev (dropWhile isSpace (rev (dropWhile isSpace s)))"

text \<open>The whitespace-separated tokens of a class attribute.\<close>

definition tokens :: "string \<Rightarrow> string list" where
  "tokens s = filter (\<lambda>w. w \<noteq> []) (splitWith isSpace s)"

text \<open>The selectors \<^verbatim>\<open>.tok\<close> and \<^verbatim>\<open>[class~="tok"]\<close>.\<close>

definition hasClass :: "string \<Rightarrow> node \<Rightarrow> bool" where
  "hasClass tok x = (case attr ''class'' x of None \<Rightarrow> False | Some v \<Rightarrow> tok \<in> set (tokens v))"

text \<open>\<^verbatim>\<open>.text()\<close>: the text leaves below a node, concatenated.\<close>

fun textOf :: "node \<Rightarrow> string" where
  "textOf (Text t) = t"
| "textOf (Element n as cs) = concat (map textOf cs)"

subsection \<open>Serialising and parsing\<close>

text \<open>
  \<^verbatim>\<open>.html()\<close> serialises the children of an element. Text is entity-encoded
  except directly below an element whose content is raw text: \<^verbatim>\<open>& < > " '\<close>
  become named references and a character above ASCII becomes a hexadecimal
  reference (a \<open>char\<close> stands for a code unit up to 255). An element is written
  as its start tag, its children and, unless it is a void element, its end
  tag; an attribute with an empty value is written as its bare name when it is
  one of the boolean attributes.

  The passes hand strings to \<^verbatim>\<open>replaceWith\<close> and \<^verbatim>\<open>.html(...)\<close>, which parse
  them into new nodes. The HTML parser is not part of the repository: it is
  the parameter \<open>parse\<close> of the functions below, which say what is parsed
  and where the result goes. Because the nodes a parse returns are new, an
  element that a selector had matched inside a replaced element is no longer
  part of the document when its turn comes in \<^verbatim>\<open>.each\<close>: rewriting it changes
  nothing in the document. Each pass is written as the recursion over the tree
  that yields the document left behind by the selector-then-\<^verbatim>\<open>each\<close> loop.
\<close>

type_synonym parser = "string \<Rightarrow> node list"

definition hexDigit :: "nat \<Rightarrow> char" where
  "hexDigit n = ''0123456789ABCDEF'' ! (n mod 16)"

definition encodeChar :: "char \<Rightarrow> string" where
  "encodeChar c =
     (if c = CHR ''&'' then ''&amp;''
      else if c = CHR ''<'' then ''&lt;''
      else if c = CHR ''>'' then ''&gt;''
      else if c = CHR 0x22 then ''&quot;''
      else if c = CHR 0x27 then ''&apos;''
      else if 128 \<le> (of_char c :: nat) then
        ''&#x'' @ [hexDigit (of_char c div 16), hexDigit (of_char c)] @ '';''
      else [c])"

definition encodeXML :: "string \<Rightarrow> string" where
  "encodeXML s = concat (map encodeChar s)"

definition unencodedElements :: "string list" where
  "unencodedElements =
     [''style'', ''script'', ''xmp'', ''iframe'', ''noembed'', ''noframes'', ''plaintext'',
      ''noscript'']"

definition singleTag :: "string list" where
  "singleTag =
     [''area'', ''base'', ''basefont'', ''br'', ''col'', ''command'', ''embed'', ''frame'', ''hr'',
      ''img'', ''input'', ''isindex'', ''keygen'', ''link'', ''meta'', ''param'', ''source'',
      ''track'', ''wbr'']"

definition booleanAttributes :: "string list" where
  "booleanAttributes =
     [''allowfullscreen'', ''async'', ''autofocus'', ''autoplay'', ''checked'', ''controls'',
      ''default'', ''defer'', ''disabled'', ''hidden'', ''ismap'', ''loop'', ''multiple'',
      ''muted'', ''open'', ''readonly'', ''required'', ''reversed'', ''scoped'', ''seamless'',
      ''selected'', ''typemustmatch'']"

definition formatAttrs :: "attribs \<Rightarrow> string" where
  "formatAttrs as =
     concat (map (\<lambda>(k, v). if v = [] \<and> k \<in> set booleanAttributes then '' '' @ k
                            else '' '' @ k @ ''='' @ [CHR 0x22] @ encodeXML v @ [CHR 0x22]) as)"

fun render :: "bool \<Rightarrow> node \<Rightarrow> string" where
  "render raw (Text t) = (if raw then t else encodeXML t)"
| "render raw (Element n as cs) =
     ''<'' @ n @ formatAttrs as @ ''>''
       @ concat (map (render (n \<in> set unencodedElements)) cs)
       @ (if n \<in> set singleTag then [] else ''</'' @ n @ ''>'')"

text \<open>\<^verbatim>\<open>$(x).html()\<close> and \<^verbatim>\<open>$.html()\<close>.\<close>

fun html :: "node \<Rightarrow> string" where
  "html (Element n as cs) = concat (map (render (n \<in> set unencodedElements)) cs)"
| "html (Text t) = []"

definition htmlDocument :: "document \<Rightarrow> string" where
  "htmlDocument doc = concat (map (render False) doc)"

section \<open>autoLink\<close>

text \<open>The regular expression \<^verbatim>\<open>/^_\.\w+$/\<close>.\<close>

definition isWordChar :: "char \<Rightarrow> bool" where
  "isWordChar c =
     (c \<in> set ''abcdefghijklmnopqrstuvwxyzABCDEFGHIJKLMNOPQRSTUVWXYZ0123456789_'')"

fun isMethodRef :: "string \<Rightarrow> bool" where
  "isMethodRef (a # b # w) = (a = CHR ''_'' \<and> b = CHR ''.'' \<and> w \<noteq> [] \<and> list_all isWordChar w)"
| "isMethodRef s = False"

text \<open>The characters such a reference is made of; none of them is entity-encoded.\<close>

definition plainChar :: "char \<Rightarrow> bool" where
  "plainChar c = (c = CHR ''.'' \<or> isWordChar c)"

text \<open>
  The replacement \<^verbatim>\<open><a href="#${ id }"><code>_.${ id }</code></a>\<close> with
  \<^verbatim>\<open>id = html.split('.')[1]\<close>; a missing second piece would print as
  \<^verbatim>\<open>undefined\<close>.
\<close>

definition methodLink :: "string \<Rightarrow> node" where
  "methodLink h =
     (let id = (case split CHR ''.'' h of a # b # rest \<Rightarrow> b | _ \<Rightarrow> ''undefined'')
      in Element ''a'' [(''href'', ''#'' @ id)] [Element ''code'' [] [Text (''_.'' @ id)]])"

text \<open>
  \<^verbatim>\<open>$('.doc-container code').each(...)\<close>: \<open>inDoc\<close> says that some proper
  ancestor carries the class \<^verbatim>\<open>doc-container\<close>. A code element that is
  replaced has no element below it (its serialisation has no \<^verbatim>\<open><\<close>), so no
  other match is lost with it.
\<close>

fun autoLinkNode :: "bool \<Rightarrow> node \<Rightarrow> node" where
  "autoLinkNode inDoc (Text t) = Text t"
| "autoLinkNode inDoc (Element n as cs) =
     (if inDoc \<and> n = ''code'' \<and> isMethodRef (html (Element n as cs))
      then methodLink (html (Element n as cs))
      else Element n as
             (map (autoLinkNode (inDoc \<or> hasClass ''doc-container'' (Element n as cs))) cs))"

definition autoLink :: "document \<Rightarrow> document" where
  "autoLink doc = map (autoLinkNode False) doc"

section \<open>removeHorizontalRules\<close>

text \<open>\<^verbatim>\<open>$('hr').remove()\<close>.\<close>

fun removeHrNode :: "node \<Rightarrow> node" where
  "removeHrNode (Text t) = Text t"
| "removeHrNode (Element n as cs) =
     Element n as (map removeHrNode (filter (\<lambda>c. \<not> isTag ''hr'' c) cs))"

definition removeHorizontalRules :: "document \<Rightarrow> document" where
  "removeHorizontalRules doc = map removeHrNode (filter (\<lambda>c. \<not> isTag ''hr'' c) doc)"

section \<open>removeMarkyAttributes\<close>

fun startsWith :: "string \<Rightarrow> string \<Rightarrow> bool" where
  "startsWith [] s = True"
| "startsWith (p # ps) [] = False"
| "startsWith (p # ps) (c # cs) = (p = c \<and> startsWith ps cs)"

text \<open>\<^verbatim>\<open>$('[id^="user-content-"]').attr('class', null).attr('id', null)\<close>.\<close>

definition clearMarky :: "attribs \<Rightarrow> attribs" where
  "clearMarky as =
     (case map_of as ''id'' of
        None \<Rightarrow> as
      | Some v \<Rightarrow>
          if startsWith ''user-content-'' v then removeAttr ''id'' (removeAttr ''class'' as)
          else as)"

text \<open>The selector \<^verbatim>\<open>:header:not(h3)\<close>, on a tag name.\<close>

definition isHeaderNotH3 :: "string \<Rightarrow> bool" where
  "isHeaderNotH3 n = (n \<in> set [''h1'', ''h2'', ''h4'', ''h5'', ''h6''])"

text \<open>
  \<^verbatim>\<open>$(':header:not(h3) > a').each(function() { $a.replaceWith($a.html()) })\<close>:
  every anchor child of such a heading gives way to the parse of its inner
  HTML. What is parsed is new: an anchor that was matched inside the replaced
  one is not rewritten in the document.
\<close>

fun unwrapHeaderAnchors :: "parser \<Rightarrow> node \<Rightarrow> node" where
  "unwrapHeaderAnchors parse (Text t) = Text t"
| "unwrapHeaderAnchors parse (Element n as cs) =
     Element n as
       (concat (map (\<lambda>c. if isHeaderNotH3 n \<and> isTag ''a'' c then parse (html c)
                          else [unwrapHeaderAnchors parse c]) cs))"

definition removeMarkyAttributes :: "parser \<Rightarrow> document \<Rightarrow> document" where
  "removeMarkyAttributes parse doc =
     map (unwrapHeaderAnchors parse) (map (mapAttribs clearMarky) doc)"

section \<open>renameLodashId\<close>

text \<open>\<^verbatim>\<open>$('#_').attr('id', 'lodash')\<close> and \<^verbatim>\<open>$('[href="#_"]').attr('href', '#lodash')\<close>.\<close>

definition renameId :: "attribs \<Rightarrow> attribs" where
  "renameId as = (if map_of as ''id'' = Some ''_'' then setAttr ''id'' ''lodash'' as else as)"

definition renameHref :: "attribs \<Rightarrow> attribs" where
  "renameHref as = (if map_of as ''href'' = Some ''#_'' then setAttr ''href'' ''#lodash'' as else as)"

definition renameLodashId :: "document \<Rightarrow> document" where
  "renameLodashId doc = map (mapAttribs renameHref) (map (mapAttribs renameId) doc)"

section \<open>repairMarkyHeaders\<close>

fun isEmptyP :: "node \<Rightarrow> bool" where
  "isEmptyP (Element n as cs) = (n = ''p'' \<and> cs = [])"
| "isEmptyP (Text t) = False"

text \<open>The next sibling that is an element: what \<^verbatim>\<open>+\<close> and \<^verbatim>\<open>.prev()\<close> step over text for.\<close>

fun nextElement :: "node list \<Rightarrow> node option" where
  "nextElement [] = None"
| "nextElement (Element n as cs # xs) = Some (Element n as cs)"
| "nextElement (Text t # xs) = nextElement xs"

definition beforeH3 :: "node list \<Rightarrow> bool" where
  "beforeH3 xs = (case nextElement xs of None \<Rightarrow> False | Some e \<Rightarrow> isTag ''h3'' e)"

text \<open>
  \<^verbatim>\<open>$('p:empty + h3').prev().remove()\<close>, on one list of siblings: the selector
  picks each h3 whose previous element sibling is an empty paragraph,
  \<^verbatim>\<open>.prev()\<close> steps back to that paragraph, and \<^verbatim>\<open>.remove()\<close> deletes it.
  The matches are taken before anything is deleted, so each node is judged by
  the siblings that follow it in the list as it came in. The list is the list
  of children of an element: the nodes at the top of the document have no
  parent, and the selectors \<^verbatim>\<open>+\<close> and \<^verbatim>\<open>~\<close> match none of them.

  \<^verbatim>\<open>.prev()\<close> here and the loop below follow the \<^verbatim>\<open>prev\<close> and \<^verbatim>\<open>next\<close>
  links of the nodes. The functions of this section take these links to agree
  with the lists of children, as they do in a document that comes from the
  parser.
\<close>

fun removeEmptyBeforeH3 :: "node list \<Rightarrow> node list"
  and removeEmptyBeforeH3Node :: "node \<Rightarrow> node" where
  "removeEmptyBeforeH3 [] = []"
| "removeEmptyBeforeH3 (x # xs) =
     (if isEmptyP x \<and> beforeH3 xs then removeEmptyBeforeH3 xs
      else removeEmptyBeforeH3Node x # removeEmptyBeforeH3 xs)"
| "removeEmptyBeforeH3Node (Text t) = Text t"
| "removeEmptyBeforeH3Node (Element n as cs) = Element n as (removeEmptyBeforeH3 cs)"

text \<open>
  The loop of the second statement, for one matched paragraph:
  \<^verbatim>\<open>let node = this.prev; while ((node = node.prev) && node.name != 'h3' && node.name != 'p') { $p.prepend(node.next) }\<close>.
  The first argument holds the siblings before the paragraph, nearest first;
  the second the children the paragraph has by now. \<^verbatim>\<open>node\<close> is the head of
  the first list; the test looks at the sibling before it, and
  \<^verbatim>\<open>prepend(node.next)\<close> moves the head to the front of the paragraph.
  A text leaf has no \<^verbatim>\<open>name\<close>, so it is never a boundary.
\<close>

definition isBoundary :: "node \<Rightarrow> bool" where
  "isBoundary x = (isTag ''h3'' x \<or> isTag ''p'' x)"

fun prependWalk :: "node list \<Rightarrow> node list \<Rightarrow> node list \<times> node list" where
  "prependWalk (r0 # r1 # rest) moved =
     (if isBoundary r1 then (r0 # r1 # rest, moved)
      else prependWalk (r1 # rest) (r0 # moved))"
| "prependWalk rs moved = (rs, moved)"

fun setChildren :: "node list \<Rightarrow> node \<Rightarrow> node" where
  "setChildren ks (Element n as cs) = Element n as ks"
| "setChildren ks (Text t) = Text t"

text \<open>
  \<^verbatim>\<open>$('h3 ~ p:empty').each(...)\<close> on one list of siblings, left to right.
  \<open>seen\<close> says that an h3 stood before the current position when the selector
  ran; \<open>acc\<close> holds the siblings already passed, as the loop has left them,
  nearest first. A matched paragraph has the h3 before it, and a walk never
  takes the last node from the list (lemma \<open>prependWalk_not_Nil\<close>), so
  \<open>acc\<close> is not empty there and \<^verbatim>\<open>this.prev\<close> exists.
\<close>

fun fillSiblings :: "bool \<Rightarrow> node list \<Rightarrow> node list \<Rightarrow> node list" where
  "fillSiblings seen acc [] = rev acc"
| "fillSiblings seen acc (x # xs) =
     (if seen \<and> isEmptyP x
      then (case prependWalk acc [] of
              (acc', moved) \<Rightarrow> fillSiblings seen (setChildren moved x # acc') xs)
      else fillSiblings (seen \<or> isTag ''h3'' x) (x # acc) xs)"

text \<open>
  The walk of one paragraph touches only the list of siblings it stands in,
  and moves whole subtrees; the lists inside the children are therefore
  rewritten first.
\<close>

fun fillEmptyAfterH3 :: "node \<Rightarrow> node" where
  "fillEmptyAfterH3 (Text t) = Text t"
| "fillEmptyAfterH3 (Element n as cs) =
     Element n as (fillSiblings False [] (map fillEmptyAfterH3 cs))"

text \<open>
  \<^verbatim>\<open>.replace(/<\/?em>/g, '_')\<close> on a string: every \<^verbatim>\<open><em>\<close> and every
  \<^verbatim>\<open></em>\<close> becomes an underscore, from left to right.
\<close>

fun replaceEm :: "string \<Rightarrow> string" where
  "replaceEm [] = []"
| "replaceEm (c # cs) =
     (if startsWith ''<em>'' (c # cs) then CHR ''_'' # replaceEm (drop 3 cs)
      else if startsWith ''</em>'' (c # cs) then CHR ''_'' # replaceEm (drop 4 cs)
      else c # replaceEm cs)"

text \<open>
  \<^verbatim>\<open>$('h3 code em').parent().each(function() { $code.html($code.html().replace(...)) })\<close>.
  \<open>inH3\<close>: a proper ancestor is an h3; \<open>inCode\<close>: a proper ancestor is a
  code element below an h3. The parents come in the order of their first em
  child, so the parents found before that child are rewritten first; the
  children of the element are then the parse of the rewritten string, and the
  parents matched among the former children are no longer in the document.
\<close>

function flattenEmInCode :: "parser \<Rightarrow> bool \<Rightarrow> bool \<Rightarrow> node \<Rightarrow> node" where
  "flattenEmInCode parse inH3 inCode (Text t) = Text t"
| "flattenEmInCode parse inH3 inCode (Element n as cs) =
     (let inCode' = (inCode \<or> (inH3 \<and> n = ''code''));
          inH3' = (inH3 \<or> n = ''h3'')
      in if inCode' \<and> (\<exists>c \<in> set cs. isTag ''em'' c)
         then Element n as
                (parse (replaceEm (html (Element n as
                   (map (flattenEmInCode parse inH3' inCode') (takeWhile (\<lambda>c. \<not> isTag ''em'' c) cs)
                    @ dropWhile (\<lambda>c. \<not> isTag ''em'' c) cs)))))
         else Element n as (map (flattenEmInCode parse inH3' inCode') cs))"
  by pat_completeness auto
termination
  by (relation "measure (\<lambda>(p, a, b, x). size x)") (auto dest!: set_takeWhileD simp: less_Suc_eq_le size_list_estimation')

text \<open>
  The three statements, one after the other over the whole document. At the
  top of the document only the children of the nodes are rewritten by the
  first two.
\<close>

definition repairMarkyHeaders :: "parser \<Rightarrow> document \<Rightarrow> document" where
  "repairMarkyHeaders parse doc =
     (let d1 = map removeEmptyBeforeH3Node doc;
          d2 = map fillEmptyAfterH3 d1
      in map (flattenEmInCode parse False False) d2)"

section \<open>tidyHighlights\<close>

text \<open>
  The table \<^verbatim>\<open>highlights\<close>. A name that is not a key of it gives
  \<^verbatim>\<open>undefined\<close> (or an inherited member of the object, which is no array);
  \<^verbatim>\<open>_.intersection\<close> takes either for the empty array.
\<close>

definition highlights :: "string \<Rightarrow> string list option" where
  "highlights ext =
     (if ext = ''html'' then Some [''string'']
      else if ext = ''js'' then
        Some [''comment'', ''console'', ''delimiter'', ''method'', ''modifier'', ''name'',
              ''numeric'', ''string'', ''support'', ''type'']
      else None)"

text \<open>
  \<^verbatim>\<open>_.intersection(xs, ys)\<close>: the values of \<open>xs\<close> that occur in \<open>ys\<close>, each
  once, in the order of their first occurrence in \<open>xs\<close>.
\<close>

definition intersection :: "string list \<Rightarrow> string list option \<Rightarrow> string list" where
  "intersection xs ys =
     rev (remdups (rev (filter (\<lambda>x. x \<in> set (case ys of None \<Rightarrow> [] | Some l \<Rightarrow> l)) xs)))"

text \<open>
  \<^verbatim>\<open>$parent.find('.source,.text').first().attr('class').split(' ').pop()\<close>.
  When nothing matches, \<^verbatim>\<open>.attr('class')\<close> is \<^verbatim>\<open>undefined\<close> and the call of
  \<^verbatim>\<open>.split\<close> throws a TypeError.
\<close>

definition isMarker :: "node \<Rightarrow> bool" where
  "isMarker x = (hasClass ''source'' x \<or> hasClass ''text'' x)"

definition detectExt :: "node \<Rightarrow> error + string" where
  "detectExt c =
     (case find isMarker (descendants c) of
        None \<Rightarrow> Inl TypeError
      | Some m \<Rightarrow>
          (case attr ''class'' m of
             None \<Rightarrow> Inl TypeError
           | Some v \<Rightarrow> Inr (last (split CHR '' '' v))))"

fun isInfix :: "string \<Rightarrow> string \<Rightarrow> bool" where
  "isInfix p [] = (p = [])"
| "isInfix p (c # cs) = (startsWith p (c # cs) \<or> isInfix p cs)"

text \<open>
  \<^verbatim>\<open>$parent.addClass(ext)\<close>: nothing for the empty string; otherwise each name
  of \<open>ext\<close> that is not yet between blanks in the class string is appended to
  it, and the result is trimmed. (The empty pieces that \<^verbatim>\<open>split(/\s+/)\<close> gives
  for a name with leading or trailing tabs add blanks only and are left out.)
\<close>

definition addClass :: "string \<Rightarrow> attribs \<Rightarrow> attribs" where
  "addClass v as =
     (if v = [] then as
      else (case map_of as ''class'' of
              None \<Rightarrow> setAttr ''class'' (trim (join '' '' (tokens v))) as
            | Some cn \<Rightarrow>
                if cn = [] then setAttr ''class'' (trim (join '' '' (tokens v))) as
                else setAttr ''class''
                       (trim (foldl (\<lambda>sc nm. if isInfix ('' '' @ nm @ '' '') sc then sc
                                              else sc @ nm @ '' '')
                                    ('' '' @ cn @ '' '') (tokens v))) as))"

text \<open>
  ``Remove extraneous class names'': for every descendant with a class
  attribute, \<^verbatim>\<open>attr('class', _.intersection(classes, highlights[ext]).join(' ') || null)\<close>.
\<close>

definition whitelistClass :: "string \<Rightarrow> attribs \<Rightarrow> attribs" where
  "whitelistClass ext as =
     (case map_of as ''class'' of
        None \<Rightarrow> as
      | Some v \<Rightarrow>
          (let a = join '' '' (intersection (split CHR '' '' v) (highlights ext))
           in if a = [] then removeAttr ''class'' as else setAttr ''class'' a as))"

text \<open>
  ``Unwrap spans containing only text''. The spans without a class attribute
  are visited in document order, a span before the spans inside it; one that
  has no child element is replaced by the parse of its text, and the loop then
  climbs to its parent. A span with child elements is thus reached again when
  the last of them has been replaced: the document left behind is the one
  computed from the leaves upward. What a parse returns is not visited. After
  the class step a class attribute is never empty (lemma
  \<open>whitelistClass_not_empty\<close>), so the loop's test \<^verbatim>\<open>!$element.attr('class')\<close>
  and the selector's \<^verbatim>\<open>:not([class])\<close> agree; the container itself carries a
  class and ends every climb.
\<close>

fun unwrapTextSpans :: "parser \<Rightarrow> node \<Rightarrow> node list" where
  "unwrapTextSpans parse (Text t) = [Text t]"
| "unwrapTextSpans parse (Element n as cs) =
     (let cs' = concat (map (unwrapTextSpans parse) cs)
      in if n = ''span'' \<and> map_of as ''class'' = None \<and> \<not> (\<exists>c \<in> set cs'. isElement c)
         then parse (concat (map textOf cs'))
         else [Element n as cs'])"

text \<open>
  ``Collapse nested spans''. The spans without a class attribute are matched
  again, in the document as the first loop has left it, and visited in
  document order. The first one reached in a subtree is replaced by the parse
  of its inner HTML; the spans matched inside it are not part of the document
  after that. The loop then climbs: the parent is replaced in the same way
  while it is a span for which \<^verbatim>\<open>!$element.attr('class')\<close> holds. The parent
  has a class attribute (it would have been matched and replaced before), so
  this holds when the attribute is the empty string, which only a span made by
  a parse of the first loop can have. When the parent is replaced, the
  children that follow are serialised as they are, and what was matched in
  them is no longer in the document. The second component of the result says
  that the node has been replaced, so that its parent is tested next.
\<close>

fun collapseSpans :: "parser \<Rightarrow> node \<Rightarrow> node list \<times> bool"
  and collapseChildren :: "parser \<Rightarrow> bool \<Rightarrow> node list \<Rightarrow> node list \<times> bool" where
  "collapseSpans parse (Text t) = ([Text t], False)"
| "collapseSpans parse (Element n as cs) =
     (if n = ''span'' \<and> map_of as ''class'' = None then (parse (html (Element n as cs)), True)
      else (case collapseChildren parse (n = ''span'' \<and> map_of as ''class'' = Some []) cs of
              (cs', climbed) \<Rightarrow>
                if climbed then (parse (html (Element n as cs')), True)
                else ([Element n as cs'], False)))"
| "collapseChildren parse climb [] = ([], False)"
| "collapseChildren parse climb (c # cs) =
     (case collapseSpans parse c of
        (ns, replaced) \<Rightarrow>
          if replaced \<and> climb then (ns @ cs, True)
          else (case collapseChildren parse climb cs of
                  (cs', climbed) \<Rightarrow> (ns @ cs', climbed)))"

text \<open>
  ``Collapse nested highlights'', for one class:
  \<^verbatim>\<open>$parent.find(`[class~="${ cls }"] > [class~="${ cls }"]`)\<close> gives the children;
  the parent of each gets \<^verbatim>\<open>$parent.text($parent.text())\<close>, one text leaf with
  all its text. Whatever was matched below that parent is gone from the
  document with its former children.
\<close>

fun collapseNested :: "string \<Rightarrow> node \<Rightarrow> node" where
  "collapseNested cls (Text t) = Text t"
| "collapseNested cls (Element n as cs) =
     (if hasClass cls (Element n as cs) \<and> (\<exists>c \<in> set cs. hasClass cls c)
      then Element n as [Text (textOf (Element n as cs))]
      else Element n as (map (collapseNested cls) cs))"

text \<open>
  ``Remove line indicators for single line snippets'', for one child of the
  container: a \<^verbatim>\<open>pre\<close> with exactly one \<^verbatim>\<open>div\<close> child has that child replaced
  by the parse of its inner HTML.
\<close>

fun unwrapSingleLine :: "parser \<Rightarrow> node \<Rightarrow> node" where
  "unwrapSingleLine parse (Text t) = Text t"
| "unwrapSingleLine parse (Element n as cs) =
     (if n = ''pre'' \<and> length (filter (isTag ''div'') cs) = 1
      then Element n as (concat (map (\<lambda>c. if isTag ''div'' c then parse (html c) else [c]) cs))
      else Element n as cs)"

text \<open>
  The body of \<^verbatim>\<open>$('.highlight').each(...)\<close> for one container, statement by
  statement: the class step (\<^verbatim>\<open>addClass\<close> and the class names), the two loops
  over the spans, the nested highlights, the single lines.
\<close>

fun classStep :: "string \<Rightarrow> node \<Rightarrow> node" where
  "classStep ext (Text t) = Text t"
| "classStep ext (Element n as cs) =
     Element n (addClass ext as) (map (mapAttribs (whitelistClass ext)) cs)"

definition unwrapStep :: "parser \<Rightarrow> node \<Rightarrow> node" where
  "unwrapStep parse x = setChildren (concat (map (unwrapTextSpans parse) (childNodes x))) x"

definition collapseStep :: "parser \<Rightarrow> node \<Rightarrow> node" where
  "collapseStep parse x = setChildren (fst (collapseChildren parse False (childNodes x))) x"

definition nestedStep :: "node \<Rightarrow> node" where
  "nestedStep x = collapseNested ''string'' (collapseNested ''comment'' x)"

definition lineStep :: "parser \<Rightarrow> node \<Rightarrow> node" where
  "lineStep parse x = setChildren (map (unwrapSingleLine parse) (childNodes x)) x"

definition tidyContainer :: "parser \<Rightarrow> node \<Rightarrow> error + node" where
  "tidyContainer parse c =
     (case detectExt c of
        Inl e \<Rightarrow> Inl e
      | Inr ext \<Rightarrow>
          Inr (lineStep parse (nestedStep (collapseStep parse (unwrapStep parse (classStep ext c))))))"

text \<open>
  \<^verbatim>\<open>$('.highlight').each(...)\<close>. The containers are matched before the loop
  starts and visited in document order; the results below are \<open>Some\<close> of what
  the loop does, an error or a document.

  A container that lies inside another one comes after it, when the class step
  of the outer one has stripped \<^verbatim>\<open>source\<close> and \<^verbatim>\<open>text\<close> from all its
  descendants (lemma \<open>whitelistClass_no_marker\<close>). Its marker lookup can then
  only find an element that a parse has created since. \<open>noMarkerAgain\<close> says
  that there is none: none after the unwrapping of the text spans and no span
  with an empty class attribute there, so that the second loop parses the
  content of spans without class only; none in the parse of such a span; none
  in the container when the outer one is done. The lookup of the inner container then finds nothing and throws. When
  a parse has created a marker, what the loop does depends on which nodes it
  still holds; the model does not follow it there and the result is \<open>None\<close>.
\<close>

definition noMarkerAgain :: "parser \<Rightarrow> string \<Rightarrow> node \<Rightarrow> node \<Rightarrow> bool" where
  "noMarkerAgain parse ext c x' =
     (list_all (\<lambda>d. \<not> isMarker d
                    \<and> \<not> (isTag ''span'' d \<and> attr ''class'' d = Some [])
                    \<and> (isTag ''span'' d \<and> attr ''class'' d = None
                        \<longrightarrow> list_all (\<lambda>y. \<not> isMarker y) (nodesOf (parse (html d)))))
        (descendants (unwrapStep parse (classStep ext c)))
      \<and> list_all (\<lambda>d. \<not> isMarker d) (descendants x'))"

fun collect :: "(error + 'a) option list \<Rightarrow> (error + 'a list) option" where
  "collect [] = Some (Inr [])"
| "collect (r # rs) =
     (case r of
        None \<Rightarrow> None
      | Some (Inl e) \<Rightarrow> Some (Inl e)
      | Some (Inr v) \<Rightarrow>
          (case collect rs of
             None \<Rightarrow> None
           | Some (Inl e) \<Rightarrow> Some (Inl e)
           | Some (Inr vs) \<Rightarrow> Some (Inr (v # vs))))"

fun tidyNode :: "parser \<Rightarrow> node \<Rightarrow> (error + node) option" where
  "tidyNode parse (Text t) = Some (Inr (Text t))"
| "tidyNode parse (Element n as cs) =
     (if hasClass ''highlight'' (Element n as cs) then
        (case tidyContainer parse (Element n as cs) of
           Inl e \<Rightarrow> Some (Inl e)
         | Inr x \<Rightarrow>
             if \<not> (\<exists>d \<in> set (descendants (Element n as cs)). hasClass ''highlight'' d)
             then Some (Inr x)
             else if noMarkerAgain parse (projr (detectExt (Element n as cs))) (Element n as cs) x
             then Some (Inl TypeError)
             else None)
      else (case collect (map (tidyNode parse) cs) of
              None \<Rightarrow> None
            | Some (Inl e) \<Rightarrow> Some (Inl e)
            | Some (Inr cs') \<Rightarrow> Some (Inr (Element n as cs'))))"

definition tidyHighlights :: "parser \<Rightarrow> document \<Rightarrow> (error + document) option" where
  "tidyHighlights parse doc = collect (map (tidyNode parse) doc)"

text \<open>
  A document in which no highlight container lies inside another one.
\<close>

definition separate :: "document \<Rightarrow> bool" where
  "separate doc =
     list_all (\<lambda>c. hasClass ''highlight'' c
                    \<longrightarrow> list_all (\<lambda>d. \<not> hasClass ''highlight'' d) (descendants c))
       (nodesOf doc)"



text \<open>
  Parsers for the examples: text without markup parses to one text leaf (the
  empty string to nothing), and \<open>parseBack kids\<close> also returns \<open>kids\<close> for
  their serialisation.
\<close>

definition textLeaf :: parser where
  "textLeaf s = (if s = [] then [] else [Text s])"

definition parseBack :: "node list \<Rightarrow> parser" where
  "parseBack kids s = (if s = htmlDocument kids then kids else textLeaf s)"

section \<open>build\<close>

text \<open>
  \<^verbatim>\<open>build\<close> reads and renders the markdown, takes the first h1 out of the
  document and the version out of that header, calls the six passes on the one
  Cheerio object \<^verbatim>\<open>$\<close>, and writes the page. The passes share that object and
  all it holds; a pass that throws ends the run. \<open>run\<close> says what a pass does
  to the object, whatever the object is.
\<close>

datatype pass =
    AutoLink
  | RenameLodashId
  | RemoveHorizontalRules
  | RemoveMarkyAttributes
  | RepairMarkyHeaders
  | TidyHighlights


fun runCalls :: "(pass \<Rightarrow> 's \<Rightarrow> error + 's) \<Rightarrow> pass list \<Rightarrow> 's \<Rightarrow> error + 's" where
  "runCalls run [] s = Inr s"
| "runCalls run (p # ps) s =
     (case run p s of
        Inl e \<Rightarrow> Inl e
      | Inr s' \<Rightarrow> runCalls run ps s')"

text \<open>One call after what came before it, unless that has thrown.\<close>

definition andThen :: "error + 's \<Rightarrow> ('s \<Rightarrow> error + 's) \<Rightarrow> error + 's" where
  "andThen r f = (case r of Inl e \<Rightarrow> Inl e | Inr s \<Rightarrow> f s)"



text \<open>
  The page, lines 204 to 218: the array joined with newlines, with the
  trimmed serialisation of the document as \<open>body\<close>; \<^verbatim>\<open>version || null\<close>
  prints as \<^verbatim>\<open>null\<close> for the empty string.
\<close>

definition pageLines :: "string \<Rightarrow> string \<Rightarrow> string list" where
  "pageLines version body =
     [''---'',
      ''id: docs'',
      ''layout: docs'',
      ''title: Lodash Documentation'',
      ''version: '' @ (if version = [] then ''null'' else version),
      ''---'',
      [],
      ''{% raw %}'',
      body,
      ''{% endraw %}'',
      []]"

definition page :: "string \<Rightarrow> document \<Rightarrow> string" where
  "page version doc = join [CHR 0x0A] (pageLines version (trim (htmlDocument doc)))"

section \<open>Properties\<close>

subsection \<open>The version line of the page\<close>

text \<open>
  C8. For every version string and every document the page is the string
  below: the front matter between the two lines \<^verbatim>\<open>---\<close>, then the body
  between the raw markers. Its fifth line is \<^verbatim>\<open>version: null\<close> when the
  version string is empty and \<^verbatim>\<open>version: \<close> followed by the version string
  otherwise; in either case the page is made.
\<close>

theorem page_version_line:
  "page version doc
   = ''---'' @ [CHR 0x0A] @ ''id: docs'' @ [CHR 0x0A] @ ''layout: docs'' @ [CHR 0x0A]
     @ ''title: Lodash Documentation'' @ [CHR 0x0A]
     @ ''version: '' @ (if version = [] then ''null'' else version) @ [CHR 0x0A]
     @ ''---'' @ [CHR 0x0A] @ [CHR 0x0A] @ ''{% raw %}'' @ [CHR 0x0A]
     @ trim (htmlDocument doc) @ [CHR 0x0A] @ ''{% endraw %}'' @ [CHR 0x0A]"
  by (simp add: page_def pageLines_def)

theorem page_version_line_witness:
  "split (CHR 0x0A) (page [] [Element ''p'' [] [Text ''x'']])
   = [''---'', ''id: docs'', ''layout: docs'', ''title: Lodash Documentation'', ''version: null'',
      ''---'', [], ''{% raw %}'', ''<p>x</p>'', ''{% endraw %}'', []]
   \<and> split (CHR 0x0A) (page ''4.17.4'' [Element ''p'' [] [Text ''x'']]) ! 4 = ''version: 4.17.4''"
proof -
  have t: "trim (htmlDocument [Element ''p'' [] [Text ''x'']]) = ''<p>x</p>''"
    by code_simp
  have a: "page [] [Element ''p'' [] [Text ''x'']]
           = ''---'' @ [CHR 0x0A] @ ''id: docs'' @ [CHR 0x0A] @ ''layout: docs'' @ [CHR 0x0A]
     @ ''title: Lodash Documentation'' @ [CHR 0x0A]
     @ ''version: null'' @ [CHR 0x0A]
     @ ''---'' @ [CHR 0x0A] @ [CHR 0x0A] @ ''{% raw %}'' @ [CHR 0x0A]
     @ ''<p>x</p>'' @ [CHR 0x0A] @ ''{% endraw %}'' @ [CHR 0x0A]"
    using t page_version_line [of "[]" "[Element ''p'' [] [Text ''x'']]"] by simp
  have b: "page ''4.17.4'' [Element ''p'' [] [Text ''x'']]
           = ''---'' @ [CHR 0x0A] @ ''id: docs'' @ [CHR 0x0A] @ ''layout: docs'' @ [CHR 0x0A]
     @ ''title: Lodash Documentation'' @ [CHR 0x0A]
     @ ''version: 4.17.4'' @ [CHR 0x0A]
     @ ''---'' @ [CHR 0x0A] @ [CHR 0x0A] @ ''{% raw %}'' @ [CHR 0x0A]
     @ ''<p>x</p>'' @ [CHR 0x0A] @ ''{% endraw %}'' @ [CHR 0x0A]"
    using t page_version_line [of "''4.17.4''" "[Element ''p'' [] [Text ''x'']]"] by simp
  show ?thesis
    unfolding a b by code_simp
qed

subsection \<open>The order of the passes\<close>

lemma runCalls_Cons: "runCalls run (p # ps) s = andThen (run p s) (runCalls run ps)"
  by (simp add: andThen_def)




subsection \<open>Anchors below headings\<close>

lemma removeMarkyAttributes_append:
  "removeMarkyAttributes parse (xs @ ys)
   = removeMarkyAttributes parse xs @ removeMarkyAttributes parse ys"
  by (simp add: removeMarkyAttributes_def)



subsection \<open>The class step for an unknown extension\<close>

lemma join_intersection_None: "join sep (intersection xs None) = []"
  by (simp add: intersection_def)

lemma whitelistClass_unknown:
  assumes "highlights ext = None"
  shows "whitelistClass ext as = removeAttr ''class'' as"
proof (cases "map_of as ''class''")
  case None
  then have "''class'' \<notin> fst ` set as"
    by (simp add: map_of_eq_None_iff)
  then show ?thesis
    using None by (simp add: whitelistClass_def removeAttr_def)
next
  case (Some v)
  then show ?thesis
    using assms by (simp add: whitelistClass_def join_intersection_None)
qed

lemma attr_removeAttr_descendants:
  "x \<in> set (mapAttribs (removeAttr k) c # descendants (mapAttribs (removeAttr k) c))
   \<Longrightarrow> attr k x = None"
proof (induction c arbitrary: x)
  case (Element n as cs)
  then show ?case
    by (auto simp: removeAttr_def delete_conv')
next
  case (Text t)
  then show ?case by simp
qed

lemma classStep_unknown:
  assumes "ext \<noteq> ''html''" and "ext \<noteq> ''js''"
  shows "classStep ext (Element n as cs)
         = Element n (addClass ext as) (map (mapAttribs (removeAttr ''class'')) cs)"
proof -
  have "highlights ext = None"
    using assms by (simp add: highlights_def)
  then have "whitelistClass ext = removeAttr ''class''"
    by (auto simp: whitelistClass_unknown)
  then show ?thesis by simp
qed

text \<open>
  C9. When the extension found for a container is neither \<^verbatim>\<open>html\<close> nor
  \<^verbatim>\<open>js\<close>, the class step leaves no class attribute on any descendant of the
  container, the marker element among them: the remaining statements of the
  loop work on the container in which the class attribute has been removed
  from every element below it.
\<close>

theorem tidyContainer_unknown_ext:
  assumes "detectExt (Element n as cs) = Inr ext" and "ext \<noteq> ''html''" and "ext \<noteq> ''js''"
  shows "tidyContainer parse (Element n as cs)
         = Inr (lineStep parse (nestedStep (collapseStep parse (unwrapStep parse
             (Element n (addClass ext as) (map (mapAttribs (removeAttr ''class'')) cs))))))
         \<and> (\<forall>d \<in> set (descendants (classStep ext (Element n as cs))). attr ''class'' d = None)"
proof -
  note cs = classStep_unknown [OF assms(2,3), of n as cs]
  have "\<forall>d \<in> set (descendants (classStep ext (Element n as cs))). attr ''class'' d = None"
    unfolding cs using attr_removeAttr_descendants [of _ "''class''"] by auto
  moreover have "tidyContainer parse (Element n as cs)
         = Inr (lineStep parse (nestedStep (collapseStep parse (unwrapStep parse
             (classStep ext (Element n as cs))))))"
    using assms(1) by (simp add: tidyContainer_def)
  ultimately show ?thesis
    unfolding cs by simp
qed

theorem tidyContainer_unknown_ext_witness:
  "detectExt (Element ''div'' [(''class'', ''highlight'')]
        [Element ''pre'' [(''class'', ''source rb'')]
           [Element ''b'' [(''class'', ''string'')] [Text ''x'']]]) = Inr ''rb''
   \<and> ''rb'' \<noteq> ''html'' \<and> ''rb'' \<noteq> ''js''
   \<and> tidyHighlights textLeaf
       [Element ''div'' [(''class'', ''highlight'')]
          [Element ''pre'' [(''class'', ''source rb'')]
             [Element ''b'' [(''class'', ''string'')] [Text ''x'']]]]
     = Some (Inr [Element ''div'' [(''class'', ''highlight rb'')]
                    [Element ''pre'' [] [Element ''b'' [] [Text ''x'']]]])"
proof -
  have d: "detectExt (Element ''div'' [(''class'', ''highlight'')]
        [Element ''pre'' [(''class'', ''source rb'')]
           [Element ''b'' [(''class'', ''string'')] [Text ''x'']]]) = Inr ''rb''"
    by code_simp
  have h1: "''rb'' \<noteq> ''html''" and h2: "''rb'' \<noteq> ''js''"
    by simp_all
  have r: "lineStep textLeaf (nestedStep (collapseStep textLeaf (unwrapStep textLeaf
             (Element ''div'' (addClass ''rb'' [(''class'', ''highlight'')])
                (map (mapAttribs (removeAttr ''class''))
                   [Element ''pre'' [(''class'', ''source rb'')]
                      [Element ''b'' [(''class'', ''string'')] [Text ''x'']]])))))
           = Element ''div'' [(''class'', ''highlight rb'')]
                    [Element ''pre'' [] [Element ''b'' [] [Text ''x'']]]"
    by code_simp
  have t: "tidyContainer textLeaf (Element ''div'' [(''class'', ''highlight'')]
          [Element ''pre'' [(''class'', ''source rb'')]
             [Element ''b'' [(''class'', ''string'')] [Text ''x'']]])
           = Inr (Element ''div'' [(''class'', ''highlight rb'')]
                    [Element ''pre'' [] [Element ''b'' [] [Text ''x'']]])"
    using tidyContainer_unknown_ext [OF d h1 h2, of textLeaf] r by simp
  have n: "\<not> (\<exists>x \<in> set (descendants (Element ''div'' [(''class'', ''highlight'')]
          [Element ''pre'' [(''class'', ''source rb'')]
             [Element ''b'' [(''class'', ''string'')] [Text ''x'']]])). hasClass ''highlight'' x)"
    by code_simp
  have hc: "hasClass ''highlight'' (Element ''div'' [(''class'', ''highlight'')]
          [Element ''pre'' [(''class'', ''source rb'')]
             [Element ''b'' [(''class'', ''string'')] [Text ''x'']]])"
    by code_simp
  show ?thesis
    using d h1 h2 t n hc by (simp add: tidyHighlights_def del: descendants.simps)
qed

subsection \<open>The empty paragraph before an h3\<close>



lemma not_beforeH3_emptyP: "isEmptyP x \<Longrightarrow> \<not> beforeH3 (x # rest)"
  by (cases x) (auto simp: beforeH3_def isTag_def)


lemma repairMarkyHeaders_append:
  "repairMarkyHeaders parse (xs @ ys) = repairMarkyHeaders parse xs @ repairMarkyHeaders parse ys"
  by (simp add: repairMarkyHeaders_def Let_def)




subsection \<open>The walk back from an empty paragraph\<close>

lemma prependWalk_not_Nil: "rs \<noteq> [] \<Longrightarrow> fst (prependWalk rs moved) \<noteq> []"
  by (induction rs moved rule: prependWalk.induct) simp_all

lemma prependWalk_acc:
  assumes "stop = [] \<or> isBoundary (last stop)"
    and "M \<noteq> [] \<Longrightarrow> \<not> isBoundary k"
    and "\<forall>x \<in> set (butlast M). \<not> isBoundary x"
  shows "prependWalk (rev (stop @ k # M)) acc = (rev (stop @ [k]), M @ acc)"
  using assms(2,3)
proof (induction M arbitrary: acc rule: rev_induct)
  case Nil
  show ?case
  proof (cases stop rule: rev_cases)
    case Nil
    then show ?thesis by simp
  next
    case (snoc ys y)
    then show ?thesis using assms(1) by simp
  qed
next
  case (snoc m M')
  have all: "\<forall>x \<in> set M'. \<not> isBoundary x"
    using snoc.prems(2) by simp
  have k: "\<not> isBoundary k"
    using snoc.prems(1) by simp
  have nb: "\<not> isBoundary (last (k # M'))"
    using all k by simp
  have step: "prependWalk (rev (stop @ k # M' @ [m])) acc
              = prependWalk (rev (stop @ k # M')) (m # acc)"
  proof (cases M' rule: rev_cases)
    case Nil
    then show ?thesis using nb by simp
  next
    case (snoc ys y)
    then show ?thesis using nb by simp
  qed
  have "prependWalk (rev (stop @ k # M')) (m # acc) = (rev (stop @ [k]), M' @ m # acc)"
  proof (rule snoc.IH)
    show "M' \<noteq> [] \<Longrightarrow> \<not> isBoundary k"
      using k by simp
    show "\<forall>x \<in> set (butlast M'). \<not> isBoundary x"
      using all by (auto dest: in_set_butlastD)
  qed
  with step show ?case by simp
qed

lemma prependWalk_moves:
  assumes "stop = [] \<or> isBoundary (last stop)"
    and "M \<noteq> [] \<Longrightarrow> \<not> isBoundary k"
    and "\<forall>x \<in> set (butlast M). \<not> isBoundary x"
  shows "prependWalk (rev (stop @ k # M)) [] = (rev (stop @ [k]), M)"
  using prependWalk_acc [OF assms, of "[]"] by simp

text \<open>
  C5. In a \<^verbatim>\<open>div\<close> that holds a text, an h3 and an empty paragraph, the loop
  moves the h3 into the paragraph: the test for h3 and p starts at the second
  sibling before the paragraph, and the sibling next to the paragraph is moved
  without having been tested.
\<close>

theorem walk_moves_heading_next_to_paragraph:
  "repairMarkyHeaders textLeaf
     [Element ''div'' [] [Text ''a'', Element ''h3'' [] [Text ''x''], Element ''p'' [] []]]
   = [Element ''div'' [] [Text ''a'', Element ''p'' [] [Element ''h3'' [] [Text ''x'']]]]
   \<and> isBoundary (Element ''h3'' [] [Text ''x''])
   \<and> prependWalk [Element ''h3'' [] [Text ''x''], Text ''a''] []
     = ([Text ''a''], [Element ''h3'' [] [Text ''x'']])"
  by code_simp


subsection \<open>Method references\<close>

lemma plainChar_encode: "plainChar c \<Longrightarrow> encodeChar c = [c]"
  unfolding plainChar_def isWordChar_def encodeChar_def by auto

lemma not_plain_specials:
  "\<not> plainChar CHR ''&''" "\<not> plainChar CHR ''<''"
  unfolding plainChar_def isWordChar_def by simp_all

lemma encodeChar_cases: "encodeChar c = [c] \<or> (\<exists>r. encodeChar c = CHR ''&'' # r)"
  unfolding encodeChar_def by simp

lemma plain_encodeXML: "list_all plainChar (encodeXML t) \<Longrightarrow> encodeXML t = t"
proof (induction t)
  case Nil
  then show ?case by (simp add: encodeXML_def)
next
  case (Cons c t)
  from encodeChar_cases [of c] show ?case
  proof
    assume "encodeChar c = [c]"
    then show ?thesis using Cons by (simp add: encodeXML_def)
  next
    assume "\<exists>r. encodeChar c = CHR ''&'' # r"
    then show ?thesis using Cons.prems not_plain_specials by (auto simp: encodeXML_def)
  qed
qed

lemma plain_render:
  assumes "list_all plainChar (render raw x)"
  shows "render raw x = textOf x \<and> \<not> isElement x"
proof (cases x)
  case (Element n as cs)
  then show ?thesis using assms not_plain_specials by simp
next
  case (Text t)
  then show ?thesis using assms plain_encodeXML [of t] by (cases raw) simp_all
qed

lemma plain_render_list:
  "list_all plainChar (concat (map (render raw) cs))
   \<Longrightarrow> concat (map (render raw) cs) = concat (map textOf cs) \<and> (\<forall>x \<in> set cs. \<not> isElement x)"
  by (induction cs) (auto dest: plain_render)

lemma isMethodRef_plain: "isMethodRef s \<Longrightarrow> list_all plainChar s"
  by (cases s rule: isMethodRef.cases) (auto simp: plainChar_def isWordChar_def list_all_iff)

lemma isMethodRef_html:
  assumes "isMethodRef (html (Element n as cs))"
  shows "html (Element n as cs) = textOf (Element n as cs) \<and> (\<forall>x \<in> set cs. \<not> isElement x)"
  using plain_render_list [of "n \<in> set unencodedElements" cs] isMethodRef_plain [OF assms] by simp

lemma split_word: "list_all isWordChar w \<Longrightarrow> splitWith (\<lambda>c. c = CHR ''.'') w = [w]"
  by (induction w) (auto simp: isWordChar_def)

lemma methodLink_ref:
  assumes "isMethodRef h"
  shows "methodLink h = Element ''a'' [(''href'', ''#'' @ drop 2 h)] [Element ''code'' [] [Text h]]"
  using assms
  by (cases h rule: isMethodRef.cases) (auto simp: methodLink_def split_def split_word isWordChar_def)




lemma autoLinkNode_text:
  assumes "\<not> isElement x"
  shows "autoLinkNode b x = x"
  using assms by (cases x) simp_all

lemma autoLink_append: "autoLink (xs @ ys) = autoLink xs @ autoLink ys"
  by (simp add: autoLink_def)






subsection \<open>Running autoLink twice\<close>

lemma autoLinkNode_elem: "isElement (autoLinkNode b x) = isElement x"
  by (cases x) (simp_all add: methodLink_def Let_def)

lemma autoLinkNode_text_children:
  assumes "\<forall>x \<in> set (map (autoLinkNode b) cs). \<not> isElement x"
  shows "map (autoLinkNode b) cs = cs"
proof (rule map_idI)
  fix c assume "c \<in> set cs"
  then have "\<not> isElement (autoLinkNode b c)"
    using assms by simp
  then show "autoLinkNode b c = c"
    by (simp add: autoLinkNode_elem autoLinkNode_text)
qed

lemma plain_encodeXML_id: "list_all plainChar t \<Longrightarrow> encodeXML t = t"
  by (induction t) (simp_all add: encodeXML_def plainChar_encode)

lemma autoLinkNode_link:
  assumes "isMethodRef h"
  shows "autoLinkNode True (methodLink h)
         = Element ''a'' [(''href'', ''#'' @ drop 2 h)] [methodLink h]"
proof -
  have "encodeXML h = h"
    using plain_encodeXML_id isMethodRef_plain [OF assms] by simp
  then show ?thesis
    using assms by (simp add: methodLink_ref unencodedElements_def)
qed

lemma autoLinkNode_yes:
  assumes "b" and "n = ''code''" and "isMethodRef (html (Element n as cs))"
  shows "autoLinkNode b (Element n as cs) = methodLink (html (Element n as cs))"
  using assms by (simp del: html.simps)

lemma autoLinkNode_no:
  assumes "\<not> (b \<and> n = ''code'' \<and> isMethodRef (html (Element n as cs)))"
  shows "autoLinkNode b (Element n as cs)
         = Element n as (map (autoLinkNode (b \<or> hasClass ''doc-container'' (Element n as cs))) cs)"
  using assms by (auto simp del: html.simps)

lemma autoLinkNode_twice:
  "autoLinkNode b (autoLinkNode b x) = autoLinkNode b x \<Longrightarrow> autoLinkNode b x = x"
proof (induction x arbitrary: b)
  case (Text t)
  then show ?case by simp
next
  case (Element n as cs)
  let ?x = "Element n as cs"
  let ?b' = "b \<or> hasClass ''doc-container'' ?x"
  show ?case
  proof (cases "b \<and> n = ''code'' \<and> isMethodRef (html ?x)")
    case True
    then have ref: "isMethodRef (html ?x)" and b: "b" and n: "n = ''code''" by blast+
    have "autoLinkNode b ?x = methodLink (html ?x)"
      using b n ref by (rule autoLinkNode_yes)
    then have "autoLinkNode b (autoLinkNode b ?x) \<noteq> autoLinkNode b ?x"
      using b autoLinkNode_link [OF ref] methodLink_ref [OF ref] by simp
    then show ?thesis using Element.prems by simp
  next
    case False
    let ?x' = "Element n as (map (autoLinkNode ?b') cs)"
    have one: "autoLinkNode b ?x = ?x'"
      using False by (rule autoLinkNode_no)
    have same: "hasClass ''doc-container'' ?x' = hasClass ''doc-container'' ?x"
      by (simp add: hasClass_def)
    have notref: "\<not> (b \<and> n = ''code'' \<and> isMethodRef (html ?x'))"
    proof
      assume q: "b \<and> n = ''code'' \<and> isMethodRef (html ?x')"
      then have "\<forall>y \<in> set (map (autoLinkNode ?b') cs). \<not> isElement y"
        using isMethodRef_html [of n as "map (autoLinkNode ?b') cs"] by blast
      then have "map (autoLinkNode ?b') cs = cs"
        by (rule autoLinkNode_text_children)
      then show False using q False by (auto simp del: html.simps)
    qed
    have two: "autoLinkNode b ?x' = Element n as (map (autoLinkNode ?b') (map (autoLinkNode ?b') cs))"
      using autoLinkNode_no [OF notref] same by (simp del: html.simps)
    have "map (autoLinkNode ?b') (map (autoLinkNode ?b') cs) = map (autoLinkNode ?b') cs"
      using Element.prems unfolding one two by simp
    then have "\<forall>c \<in> set cs. autoLinkNode ?b' (autoLinkNode ?b' c) = autoLinkNode ?b' c"
      by simp
    then have "\<forall>c \<in> set cs. autoLinkNode ?b' c = c"
      using Element.IH by blast
    then have "map (autoLinkNode ?b') cs = cs"
      by (simp add: map_idI)
    then show ?thesis unfolding one by simp
  qed
qed

text \<open>
  C3. A second run of \<^verbatim>\<open>autoLink\<close> leaves the result of the first run as it
  is exactly when the first run left the document as it was. Where the first
  run has put an anchor, the code element in it is again a code element below
  the documentation container with the same text, and the second run wraps it
  once more.
\<close>

theorem autoLink_twice_iff_unchanged:
  "autoLink (autoLink doc) = autoLink doc \<longleftrightarrow> autoLink doc = doc"
proof
  assume "autoLink (autoLink doc) = autoLink doc"
  then have "\<forall>x \<in> set doc. autoLinkNode False (autoLinkNode False x) = autoLinkNode False x"
    by (simp add: autoLink_def)
  then have "\<forall>x \<in> set doc. autoLinkNode False x = x"
    using autoLinkNode_twice by blast
  then show "autoLink doc = doc"
    by (simp add: autoLink_def map_idI)
next
  assume "autoLink doc = doc"
  then show "autoLink (autoLink doc) = autoLink doc" by simp
qed

theorem autoLink_twice_iff_unchanged_witness:
  "autoLink [Element ''div'' [(''class'', ''doc-container'')] [Element ''code'' [] [Text ''foo(_.map)'']]]
   = [Element ''div'' [(''class'', ''doc-container'')] [Element ''code'' [] [Text ''foo(_.map)'']]]
   \<and> autoLink (autoLink [Element ''div'' [(''class'', ''doc-container'')] [Element ''code'' [] [Text ''foo(_.map)'']]])
   = autoLink [Element ''div'' [(''class'', ''doc-container'')] [Element ''code'' [] [Text ''foo(_.map)'']]]"
proof -
  have u: "autoLink [Element ''div'' [(''class'', ''doc-container'')] [Element ''code'' [] [Text ''foo(_.map)'']]]
   = [Element ''div'' [(''class'', ''doc-container'')] [Element ''code'' [] [Text ''foo(_.map)'']]]"
    by code_simp
  show ?thesis
    using u autoLink_twice_iff_unchanged
      [of "[Element ''div'' [(''class'', ''doc-container'')] [Element ''code'' [] [Text ''foo(_.map)'']]]"]
    by blast
qed

theorem autoLink_twice_counterexample:
  "autoLink (autoLink
     [Element ''div'' [(''class'', ''doc-container'')] [Element ''code'' [] [Text ''_.map'']]])
   = [Element ''div'' [(''class'', ''doc-container'')]
        [Element ''a'' [(''href'', ''#map'')]
           [Element ''a'' [(''href'', ''#map'')] [Element ''code'' [] [Text ''_.map'']]]]]
   \<and> autoLink (autoLink
     [Element ''div'' [(''class'', ''doc-container'')] [Element ''code'' [] [Text ''_.map'']]])
   \<noteq> autoLink
     [Element ''div'' [(''class'', ''doc-container'')] [Element ''code'' [] [Text ''_.map'']]]"
  by code_simp


subsection \<open>The class step leaves no marker and no empty class\<close>

lemma whitelistClass_not_empty: "map_of (whitelistClass ext as) ''class'' \<noteq> Some []"
  by (cases "map_of as ''class''")
     (auto simp: whitelistClass_def Let_def setAttr_def removeAttr_def update_conv' delete_conv')

lemma splitWith_not_Nil: "splitWith p s \<noteq> []"
  by (induction s) (auto split: list.splits)

lemma splitWith_append:
  assumes "\<forall>c \<in> set w. \<not> p c"
  shows "splitWith p (w @ s) = (w @ hd (splitWith p s)) # tl (splitWith p s)"
  using assms
proof (induction w)
  case Nil
  then show ?case using splitWith_not_Nil [of p s] by simp
next
  case (Cons c w)
  then show ?case by simp
qed

lemma splitWith_join:
  assumes "\<forall>w \<in> set ws. \<forall>c \<in> set w. \<not> isSpace c" and "ws \<noteq> []"
  shows "splitWith isSpace (join '' '' ws) = ws"
  using assms
proof (induction "'' ''" ws rule: join.induct)
  case 1
  then show ?case by simp
next
  case (2 x)
  then show ?case using splitWith_append [of x isSpace "[]"] by simp
next
  case (3 x y ys)
  have "splitWith isSpace (join '' '' (y # ys)) = y # ys"
    using 3 by simp
  moreover have "isSpace CHR '' ''"
    by (simp add: isSpace_def)
  ultimately show ?case
    using 3(2) splitWith_append [of x isSpace "'' '' @ join '' '' (y # ys)"] by simp
qed

lemma tokens_join:
  assumes "\<forall>w \<in> set ws. \<forall>c \<in> set w. \<not> isSpace c"
  shows "set (tokens (join '' '' ws)) \<subseteq> set ws"
proof (cases "ws = []")
  case True
  then show ?thesis by (simp add: tokens_def)
next
  case False
  then show ?thesis using splitWith_join [OF assms] by (auto simp: tokens_def)
qed

lemma highlights_words:
  assumes "highlights ext = Some L"
  shows "\<forall>w \<in> set L. \<forall>c \<in> set w. \<not> isSpace c"
    and "''source'' \<notin> set L" and "''text'' \<notin> set L" and "''highlight'' \<notin> set L"
  using assms by (auto simp: highlights_def isSpace_def split: if_splits)

lemma set_intersection: "set (intersection xs (Some L)) \<subseteq> set L"
  by (auto simp: intersection_def)

lemma hasClass_whitelistClass:
  assumes "hasClass tok (Element n (whitelistClass ext as) cs)"
  shows "\<exists>L. highlights ext = Some L \<and> tok \<in> set L"
proof (cases "map_of as ''class''")
  case None
  then show ?thesis using assms by (simp add: whitelistClass_def hasClass_def)
next
  case (Some v)
  let ?ws = "intersection (split CHR '' '' v) (highlights ext)"
  show ?thesis
  proof (cases "highlights ext")
    case None
    then have "whitelistClass ext as = removeAttr ''class'' as"
      using Some by (simp add: whitelistClass_def intersection_def)
    then show ?thesis
      using assms by (simp add: hasClass_def removeAttr_def delete_conv')
  next
    case (Some L)
    have sub: "set ?ws \<subseteq> set L"
      using Some set_intersection by simp
    then have "\<forall>w \<in> set ?ws. \<forall>c \<in> set w. \<not> isSpace c"
      using highlights_words(1) [OF Some] by blast
    then have tk: "set (tokens (join '' '' ?ws)) \<subseteq> set L"
      using tokens_join sub by blast
    have "tok \<in> set (tokens (join '' '' ?ws))"
      using assms \<open>map_of as ''class'' = Some v\<close>
      by (auto simp: whitelistClass_def Let_def hasClass_def setAttr_def removeAttr_def
          update_conv' delete_conv' split: if_splits)
    then show ?thesis using tk Some by auto
  qed
qed

lemma descendants_mapAttribs:
  "descendants (mapAttribs f x) = map (mapAttribs f) (descendants x)"
proof (induction x)
  case (Element n as cs)
  then show ?case by (induction cs) (simp_all)
next
  case (Text t)
  then show ?case by simp
qed

lemma not_isMarker_whitelisted: "\<not> isMarker (mapAttribs (whitelistClass ext) x)"
proof (cases x)
  case (Element n as cs)
  show ?thesis
    using hasClass_whitelistClass [of _ n ext as "map (mapAttribs (whitelistClass ext)) cs"]
      highlights_words(2,3)
    unfolding Element isMarker_def by (metis mapAttribs.simps(1))
next
  case (Text t)
  then show ?thesis by (simp add: isMarker_def hasClass_def)
qed

lemma whitelistClass_no_marker:
  "find isMarker (descendants (Element n as' (map (mapAttribs (whitelistClass ext)) cs))) = None"
proof -
  have "descendants (Element n as' (map (mapAttribs (whitelistClass ext)) cs))
        = map (mapAttribs (whitelistClass ext)) (descendants (Element n as cs))"
    using descendants_mapAttribs [of "whitelistClass ext" "Element n as cs"] by simp
  moreover have "\<forall>y \<in> set (map (mapAttribs (whitelistClass ext)) (descendants (Element n as cs))).
                   \<not> isMarker y"
    using not_isMarker_whitelisted by auto
  ultimately show ?thesis
    by (simp only: find_None_iff) blast
qed

subsection \<open>When tidyHighlights throws\<close>

lemma isMarker_class: "isMarker m \<Longrightarrow> attr ''class'' m \<noteq> None"
  by (auto simp: isMarker_def hasClass_def split: option.splits)

lemma detectExt_fails_iff:
  "(\<exists>e. detectExt c = Inl e) \<longleftrightarrow> \<not> (\<exists>m \<in> set (descendants c). isMarker m)"
proof (cases "find isMarker (descendants c)")
  case None
  then have "\<not> (\<exists>m \<in> set (descendants c). isMarker m)"
    by (simp add: find_None_iff)
  moreover have "detectExt c = Inl TypeError"
    using None by (simp add: detectExt_def)
  ultimately show ?thesis by blast
next
  case (Some m)
  then have m: "isMarker m" "m \<in> set (descendants c)"
    by (auto simp: find_Some_iff in_set_conv_nth)
  then obtain v where "attr ''class'' m = Some v"
    using isMarker_class [of m] by auto
  then have "detectExt c = Inr (last (split CHR '' '' v))"
    using Some by (simp add: detectExt_def)
  then show ?thesis using m by auto
qed

lemma tidyContainer_fails_iff:
  "(\<exists>e. tidyContainer parse c = Inl e) \<longleftrightarrow> \<not> (\<exists>m \<in> set (descendants c). isMarker m)"
proof -
  have "(\<exists>e. tidyContainer parse c = Inl e) \<longleftrightarrow> (\<exists>e. detectExt c = Inl e)"
    by (cases "detectExt c") (simp_all add: tidyContainer_def)
  then show ?thesis
    by (simp only: detectExt_fails_iff)
qed

lemma collect_not_None: "\<forall>r \<in> set rs. r \<noteq> None \<Longrightarrow> collect rs \<noteq> None"
  by (induction rs) (auto split: option.splits sum.splits)

lemma collect_fails_iff:
  "\<forall>r \<in> set rs. r \<noteq> None
   \<Longrightarrow> (\<exists>e. collect rs = Some (Inl e)) \<longleftrightarrow> (\<exists>r \<in> set rs. \<exists>e. r = Some (Inl e))"
  by (induction rs) (auto split: option.splits sum.splits)


lemma tidyNode_separate:
  assumes "\<forall>c \<in> set (x # descendants x).
             hasClass ''highlight'' c \<longrightarrow> (\<forall>d \<in> set (descendants c). \<not> hasClass ''highlight'' d)"
  shows "tidyNode parse x \<noteq> None
         \<and> ((\<exists>e. tidyNode parse x = Some (Inl e))
             \<longleftrightarrow> (\<exists>c \<in> set (x # descendants x).
                    hasClass ''highlight'' c \<and> \<not> (\<exists>m \<in> set (descendants c). isMarker m)))"
  using assms
proof (induction x)
  case (Text t)
  then show ?case by (simp add: hasClass_def)
next
  case (Element n as cs)
  let ?x = "Element n as cs"
  show ?case
  proof (cases "hasClass ''highlight'' ?x")
    case True
    then have none: "\<not> (\<exists>d \<in> set (descendants ?x). hasClass ''highlight'' d)"
      using Element.prems by simp
    have "tidyNode parse ?x
          = (case tidyContainer parse ?x of Inl e \<Rightarrow> Some (Inl e) | Inr y \<Rightarrow> Some (Inr y))"
      using True none by (simp split: sum.splits del: descendants.simps)
    then have "tidyNode parse ?x \<noteq> None"
      and "(\<exists>e. tidyNode parse ?x = Some (Inl e)) \<longleftrightarrow> (\<exists>e. tidyContainer parse ?x = Inl e)"
      by (cases "tidyContainer parse ?x"; simp)+
    moreover have "(\<exists>c \<in> set (?x # descendants ?x).
                    hasClass ''highlight'' c \<and> \<not> (\<exists>m \<in> set (descendants c). isMarker m))
                   \<longleftrightarrow> \<not> (\<exists>m \<in> set (descendants ?x). isMarker m)"
      using True none by (auto simp del: descendants.simps)
    ultimately show ?thesis
      using tidyContainer_fails_iff [of parse ?x] by (simp del: descendants.simps)
  next
    case False
    have "\<And>c y. c \<in> set cs \<Longrightarrow> y \<in> set (c # descendants c) \<Longrightarrow> y \<in> set (descendants ?x)"
      by auto
    then have sub: "\<forall>c \<in> set cs. \<forall>y \<in> set (c # descendants c).
             hasClass ''highlight'' y \<longrightarrow> (\<forall>d \<in> set (descendants y). \<not> hasClass ''highlight'' d)"
      using Element.prems by (simp del: descendants.simps) blast
    then have ih: "\<forall>c \<in> set cs. tidyNode parse c \<noteq> None
         \<and> ((\<exists>e. tidyNode parse c = Some (Inl e))
             \<longleftrightarrow> (\<exists>y \<in> set (c # descendants c).
                    hasClass ''highlight'' y \<and> \<not> (\<exists>m \<in> set (descendants y). isMarker m)))"
      using Element.IH by blast
    then have nn: "\<forall>r \<in> set (map (tidyNode parse) cs). r \<noteq> None"
      by auto
    have eq: "tidyNode parse ?x
          = (case collect (map (tidyNode parse) cs) of
               None \<Rightarrow> None
             | Some (Inl e) \<Rightarrow> Some (Inl e)
             | Some (Inr cs') \<Rightarrow> Some (Inr (Element n as cs')))"
      using False by simp
    have a: "tidyNode parse ?x \<noteq> None"
      using collect_not_None [OF nn] unfolding eq by (auto split: option.splits sum.splits)
    have "(\<exists>e. tidyNode parse ?x = Some (Inl e))
          \<longleftrightarrow> (\<exists>e. collect (map (tidyNode parse) cs) = Some (Inl e))"
      unfolding eq by (auto split: option.splits sum.splits)
    also have "\<dots> \<longleftrightarrow> (\<exists>c \<in> set cs. \<exists>e. tidyNode parse c = Some (Inl e))"
      using collect_fails_iff [OF nn] by auto
    also have "\<dots> \<longleftrightarrow> (\<exists>c \<in> set cs. \<exists>y \<in> set (c # descendants c).
                    hasClass ''highlight'' y \<and> \<not> (\<exists>m \<in> set (descendants y). isMarker m))"
      using ih by blast
    also have "\<dots> \<longleftrightarrow> (\<exists>y \<in> set (descendants ?x).
                    hasClass ''highlight'' y \<and> \<not> (\<exists>m \<in> set (descendants y). isMarker m))"
      by auto
    also have "\<dots> \<longleftrightarrow> (\<exists>y \<in> set (?x # descendants ?x).
                    hasClass ''highlight'' y \<and> \<not> (\<exists>m \<in> set (descendants y). isMarker m))"
      using False by (simp del: descendants.simps)
    finally show ?thesis using a by blast
  qed
qed

lemma collect_tidy_separate:
  assumes "\<forall>c \<in> set (nodesOf doc).
             hasClass ''highlight'' c \<longrightarrow> (\<forall>d \<in> set (descendants c). \<not> hasClass ''highlight'' d)"
  shows "collect (map (tidyNode parse) doc) \<noteq> None"
    and "(\<exists>e. collect (map (tidyNode parse) doc) = Some (Inl e))
         \<longleftrightarrow> (\<exists>c \<in> set (nodesOf doc).
                hasClass ''highlight'' c \<and> \<not> (\<exists>m \<in> set (descendants c). isMarker m))"
proof -
  have mem: "\<And>x c. x \<in> set doc \<Longrightarrow> c \<in> set (x # descendants x) \<Longrightarrow> c \<in> set (nodesOf doc)"
    by (auto simp: nodesOf_def)
  have each: "tidyNode parse x \<noteq> None
         \<and> ((\<exists>e. tidyNode parse x = Some (Inl e))
             \<longleftrightarrow> (\<exists>c \<in> set (x # descendants x).
                    hasClass ''highlight'' c \<and> \<not> (\<exists>m \<in> set (descendants c). isMarker m)))"
    if "x \<in> set doc" for x
  proof (rule tidyNode_separate)
    show "\<forall>c \<in> set (x # descendants x).
             hasClass ''highlight'' c \<longrightarrow> (\<forall>d \<in> set (descendants c). \<not> hasClass ''highlight'' d)"
      using assms mem [OF that] by blast
  qed
  then have nn: "\<forall>r \<in> set (map (tidyNode parse) doc). r \<noteq> None"
    by simp
  show "collect (map (tidyNode parse) doc) \<noteq> None"
    using nn by (rule collect_not_None)
  have "(\<exists>e. collect (map (tidyNode parse) doc) = Some (Inl e))
        \<longleftrightarrow> (\<exists>r \<in> set (map (tidyNode parse) doc). \<exists>e. r = Some (Inl e))"
    using nn by (rule collect_fails_iff)
  also have "\<dots> \<longleftrightarrow> (\<exists>x \<in> set doc. \<exists>e. tidyNode parse x = Some (Inl e))"
    by simp
  also have "\<dots> \<longleftrightarrow> (\<exists>x \<in> set doc. \<exists>c \<in> set (x # descendants x).
                    hasClass ''highlight'' c \<and> \<not> (\<exists>m \<in> set (descendants c). isMarker m))"
    using each by blast
  also have "\<dots> \<longleftrightarrow> (\<exists>c \<in> set (nodesOf doc).
                    hasClass ''highlight'' c \<and> \<not> (\<exists>m \<in> set (descendants c). isMarker m))"
    unfolding nodesOf_def by (simp only: set_concat set_map) blast
  finally show "(\<exists>e. collect (map (tidyNode parse) doc) = Some (Inl e))
         \<longleftrightarrow> (\<exists>c \<in> set (nodesOf doc).
                hasClass ''highlight'' c \<and> \<not> (\<exists>m \<in> set (descendants c). isMarker m))" .
qed

lemma result_cases:
  fixes r :: "(error + 'a) option"
  assumes "r \<noteq> None"
  shows "(\<exists>e. r = Some (Inl e)) \<longleftrightarrow> r = Some (Inl TypeError)"
    and "(\<exists>v. r = Some (Inr v)) \<longleftrightarrow> \<not> (\<exists>e. r = Some (Inl e))"
proof -
  show "(\<exists>e. r = Some (Inl e)) \<longleftrightarrow> r = Some (Inl TypeError)"
    by (metis error.exhaust)
  obtain s where "r = Some s"
    using assms by auto
  then show "(\<exists>v. r = Some (Inr v)) \<longleftrightarrow> \<not> (\<exists>e. r = Some (Inl e))"
    by (cases s) simp_all
qed

text \<open>
  C4. In a document where no highlight container lies inside another one,
  \<^verbatim>\<open>tidyHighlights\<close> runs to its end or throws; it throws exactly when
  some highlight container has no descendant of class \<^verbatim>\<open>source\<close> or
  \<^verbatim>\<open>text\<close>, and it returns a document exactly when every container has one.
  No other step of the pass throws, whatever it finds or does not find and
  whatever the parser returns.
\<close>

theorem tidyHighlights_throws_iff:
  assumes "separate doc"
  shows "tidyHighlights parse doc \<noteq> None
         \<and> ((tidyHighlights parse doc = Some (Inl TypeError))
             \<longleftrightarrow> (\<exists>c \<in> set (nodesOf doc).
                    hasClass ''highlight'' c \<and> \<not> (\<exists>m \<in> set (descendants c). isMarker m)))
         \<and> ((\<exists>doc'. tidyHighlights parse doc = Some (Inr doc'))
             \<longleftrightarrow> (\<forall>c \<in> set (nodesOf doc).
                    hasClass ''highlight'' c \<longrightarrow> (\<exists>m \<in> set (descendants c). isMarker m)))"
proof -
  have sep: "\<forall>c \<in> set (nodesOf doc).
             hasClass ''highlight'' c \<longrightarrow> (\<forall>d \<in> set (descendants c). \<not> hasClass ''highlight'' d)"
    using assms unfolding separate_def list_all_iff .
  have a: "tidyHighlights parse doc \<noteq> None"
    unfolding tidyHighlights_def using sep by (rule collect_tidy_separate(1))
  have b: "(\<exists>e. tidyHighlights parse doc = Some (Inl e))
         \<longleftrightarrow> (\<exists>c \<in> set (nodesOf doc).
                hasClass ''highlight'' c \<and> \<not> (\<exists>m \<in> set (descendants c). isMarker m))"
    unfolding tidyHighlights_def using sep by (rule collect_tidy_separate(2))
  note c = result_cases [OF a]
  have one: "(tidyHighlights parse doc = Some (Inl TypeError))
             \<longleftrightarrow> (\<exists>c \<in> set (nodesOf doc).
                    hasClass ''highlight'' c \<and> \<not> (\<exists>m \<in> set (descendants c). isMarker m))"
    using b c(1) by simp
  have two: "(\<exists>doc'. tidyHighlights parse doc = Some (Inr doc'))
             \<longleftrightarrow> \<not> (\<exists>c \<in> set (nodesOf doc).
                    hasClass ''highlight'' c \<and> \<not> (\<exists>m \<in> set (descendants c). isMarker m))"
    using b c(2) by simp
  have three: "(\<not> (\<exists>c \<in> set (nodesOf doc).
                    hasClass ''highlight'' c \<and> \<not> (\<exists>m \<in> set (descendants c). isMarker m)))
               \<longleftrightarrow> (\<forall>c \<in> set (nodesOf doc).
                    hasClass ''highlight'' c \<longrightarrow> (\<exists>m \<in> set (descendants c). isMarker m))"
    by blast
  show ?thesis
    using a one two three by (simp only: simp_thms)
qed


theorem tidyHighlights_throws_iff_witness:
  "separate [Element ''div'' [(''class'', ''highlight'')] [Element ''pre'' [] [Text ''x'']]]
   \<and> tidyHighlights textLeaf
       [Element ''div'' [(''class'', ''highlight'')] [Element ''pre'' [] [Text ''x'']]]
     = Some (Inl TypeError)
   \<and> separate
       [Element ''p'' [] [Text ''a''],
        Element ''div'' [(''class'', ''highlight'')]
          [Element ''pre'' [(''class'', ''source js'')]
             [Element ''div'' [(''class'', ''line'')]
                [Element ''span'' [(''class'', ''storage type'')] [Text ''var'']]]]]
   \<and> (\<exists>doc'. tidyHighlights (parseBack [Element ''span'' [(''class'', ''type'')] [Text ''var'']])
          [Element ''p'' [] [Text ''a''],
           Element ''div'' [(''class'', ''highlight'')]
             [Element ''pre'' [(''class'', ''source js'')]
                [Element ''div'' [(''class'', ''line'')]
                   [Element ''span'' [(''class'', ''storage type'')] [Text ''var'']]]]]
        = Some (Inr doc'))
   \<and> tidyHighlights (parseBack [Element ''span'' [(''class'', ''type'')] [Text ''var'']])
          [Element ''p'' [] [Text ''a''],
           Element ''div'' [(''class'', ''highlight'')]
             [Element ''pre'' [(''class'', ''source js'')]
                [Element ''div'' [(''class'', ''line'')]
                   [Element ''span'' [(''class'', ''storage type'')] [Text ''var'']]]]]
     = Some (Inr [Element ''p'' [] [Text ''a''],
                  Element ''div'' [(''class'', ''highlight js'')]
                    [Element ''pre'' [] [Element ''span'' [(''class'', ''type'')] [Text ''var'']]]])"
proof -
  let ?d1 = "[Element ''div'' [(''class'', ''highlight'')] [Element ''pre'' [] [Text ''x'']]]"
  let ?d2 = "[Element ''p'' [] [Text ''a''],
        Element ''div'' [(''class'', ''highlight'')]
          [Element ''pre'' [(''class'', ''source js'')]
             [Element ''div'' [(''class'', ''line'')]
                [Element ''span'' [(''class'', ''storage type'')] [Text ''var'']]]]]"
  let ?p = "parseBack [Element ''span'' [(''class'', ''type'')] [Text ''var'']]"
  have s1: "separate ?d1"
    by code_simp
  have s2: "separate ?d2"
    by code_simp
  have f1: "\<exists>c \<in> set (nodesOf ?d1).
              hasClass ''highlight'' c \<and> \<not> (\<exists>m \<in> set (descendants c). isMarker m)"
    by code_simp
  have f2: "\<forall>c \<in> set (nodesOf ?d2).
              hasClass ''highlight'' c \<longrightarrow> (\<exists>m \<in> set (descendants c). isMarker m)"
    by code_simp
  have a: "tidyHighlights textLeaf ?d1 = Some (Inl TypeError)"
    using tidyHighlights_throws_iff [OF s1, of textLeaf] f1 by blast
  have b: "\<exists>doc'. tidyHighlights ?p ?d2 = Some (Inr doc')"
    using tidyHighlights_throws_iff [OF s2, of ?p] f2 by blast
  have c: "tidyHighlights ?p ?d2
     = Some (Inr [Element ''p'' [] [Text ''a''],
                  Element ''div'' [(''class'', ''highlight js'')]
                    [Element ''pre'' [] [Element ''span'' [(''class'', ''type'')] [Text ''var'']]]])"
    by code_simp
  show ?thesis
    using s1 s2 a b c by simp
qed

text \<open>
  Two containers, one in the other, with a marker below both: the pass throws,
  whatever the parser (it is never called).
\<close>

theorem nested_containers_counterexample:
  "(\<forall>parse. tidyHighlights parse
     [Element ''div'' [(''class'', ''highlight'')]
        [Element ''div'' [(''class'', ''highlight'')]
           [Element ''pre'' [(''class'', ''source js'')] [Text ''x'']]]]
   = Some (Inl TypeError))
   \<and> list_all (\<lambda>c. hasClass ''highlight'' c \<longrightarrow> find isMarker (descendants c) \<noteq> None)
       (nodesOf
          [Element ''div'' [(''class'', ''highlight'')]
             [Element ''div'' [(''class'', ''highlight'')]
                [Element ''pre'' [(''class'', ''source js'')] [Text ''x'']]]])"
proof -
  let ?c = "Element ''div'' [(''class'', ''highlight'')]
        [Element ''div'' [(''class'', ''highlight'')]
           [Element ''pre'' [(''class'', ''source js'')] [Text ''x'']]]"
  have ext: "detectExt ?c = Inr ''js''"
    by code_simp
  have cl: "classStep ''js'' ?c
            = Element ''div'' [(''class'', ''highlight js'')]
                [Element ''div'' [] [Element ''pre'' [] [Text ''x'']]]"
    by code_simp
  let ?r = "Element ''div'' [(''class'', ''highlight js'')]
                [Element ''div'' [] [Element ''pre'' [] [Text ''x'']]]"
  have u: "unwrapStep parse ?r = ?r" for parse
    by (simp add: unwrapStep_def)
  have co: "collapseStep parse ?r = ?r" for parse
    by (simp add: collapseStep_def)
  have ne: "nestedStep ?r = ?r"
    by code_simp
  have li: "lineStep parse ?r = ?r" for parse
    by (simp add: lineStep_def)
  have t: "tidyContainer parse ?c = Inr ?r" for parse
    by (simp only: tidyContainer_def ext sum.case cl u co ne li)
  have nm: "noMarkerAgain parse ''js'' ?c (Element ''div'' [(''class'', ''highlight js'')]
                [Element ''div'' [] [Element ''pre'' [] [Text ''x'']]])" for parse
    unfolding noMarkerAgain_def cl u
    by (simp add: isMarker_def hasClass_def isTag_def)
  have hl: "hasClass ''highlight'' ?c"
    by code_simp
  have inner: "\<exists>d \<in> set (descendants ?c). hasClass ''highlight'' d"
    by code_simp
  have "tidyNode parse ?c = Some (Inl TypeError)" for parse
    using hl inner nm [of parse] by (simp add: t ext del: descendants.simps)
  then have "\<forall>parse. tidyHighlights parse [?c] = Some (Inl TypeError)"
    by (simp add: tidyHighlights_def)
  moreover have "list_all (\<lambda>c. hasClass ''highlight'' c \<longrightarrow> find isMarker (descendants c) \<noteq> None)
       (nodesOf [?c])"
    by code_simp
  ultimately show ?thesis by blast
qed


subsection \<open>Nested highlights\<close>

























end
